theory Spec2Isabelle
  imports Complex_Main
begin

section \<open>CircuitBreaker (utils/circuitBreaker.ts)\<close>

text \<open>
  The class has five private fields with fixed initialisers. \<open>Date.now()\<close> is an input of
  the two methods that read the clock; times are integer milliseconds. \<open>isOpen\<close> assigns to
  no field, so it is a function of the state and the clock alone.
\<close>

record CircuitBreaker =
  failureCount :: nat
  successThreshold :: nat
  failureThreshold :: nat
  cooldownPeriod :: int
  lastFailureTime :: int

definition new_CircuitBreaker :: CircuitBreaker where
  "new_CircuitBreaker =
     \<lparr>failureCount = 0, successThreshold = 1, failureThreshold = 3,
      cooldownPeriod = 10000, lastFailureTime = 0\<rparr>"

definition isOpen :: "int \<Rightarrow> CircuitBreaker \<Rightarrow> bool" where
  "isOpen now b =
     (if failureThreshold b \<le> failureCount b
      then now - lastFailureTime b < cooldownPeriod b
      else False)"

definition recordFailure :: "int \<Rightarrow> CircuitBreaker \<Rightarrow> CircuitBreaker" where
  "recordFailure now b = b\<lparr>failureCount := failureCount b + 1, lastFailureTime := now\<rparr>"

definition recordSuccess :: "CircuitBreaker \<Rightarrow> CircuitBreaker" where
  "recordSuccess b = b\<lparr>failureCount := 0\<rparr>"

section \<open>retryWithBackoff (utils/retryWithBackoff.ts)\<close>

text \<open>
  The operation \<open>fn\<close> takes no argument and may answer differently each time it is called,
  so it is given as the outcome of its k-th invocation (k from 0): \<open>Inl e\<close> when the promise
  rejects with \<open>e\<close>, \<open>Inr v\<close> when it resolves to \<open>v\<close>. Every pass of the loop invokes
  \<open>fn\<close> once and \<open>attempt\<close> is incremented once per failed pass, so the pass with counter
  \<open>attempt\<close> makes invocation number \<open>attempt\<close>. The function returns the settled value
  of the promise together with the trace of what it did: invocations and timer waits, in
  order. \<open>retries\<close> is an attempt count, an integer; \<open>delay\<close> is in milliseconds.
\<close>

datatype 'e retry_error = Thrown 'e | FailedAfterRetries

datatype retry_event = Invoke nat | Wait int

function retryLoop ::
  "(nat \<Rightarrow> 'e + 'a) \<Rightarrow> int \<Rightarrow> int \<Rightarrow> nat \<Rightarrow> ('e retry_error + 'a) \<times> retry_event list" where
  "retryLoop fn retries delay attempt =
     (if int attempt < retries then
        (case fn attempt of
           Inr v \<Rightarrow> (Inr v, [Invoke attempt])
         | Inl e \<Rightarrow>
             if int attempt = retries - 1 then (Inl (Thrown e), [Invoke attempt])
             else (case retryLoop fn retries delay (Suc attempt) of
                     (r, tr) \<Rightarrow> (r, Invoke attempt # Wait (delay * 2 ^ attempt) # tr)))
      else (Inl FailedAfterRetries, []))"
  by pat_completeness auto
termination
  by (relation "measure (\<lambda>(fn, retries, delay, attempt). nat (retries - int attempt))") auto

declare retryLoop.simps [simp del]

definition retryWithBackoff ::
  "(nat \<Rightarrow> 'e + 'a) \<Rightarrow> int \<Rightarrow> int \<Rightarrow> ('e retry_error + 'a) \<times> retry_event list" where
  "retryWithBackoff fn retries delay = retryLoop fn retries delay 0"

text \<open>Reading a trace: how often the operation was invoked, and the waits in order.\<close>

fun invocations :: "retry_event list \<Rightarrow> nat" where
  "invocations [] = 0"
| "invocations (Invoke k # tr) = Suc (invocations tr)"
| "invocations (Wait d # tr) = invocations tr"

fun waits :: "retry_event list \<Rightarrow> int list" where
  "waits [] = []"
| "waits (Invoke k # tr) = waits tr"
| "waits (Wait d # tr) = d # waits tr"

text \<open>The trace of passes \<open>a, a+1, ..., j\<close> where every pass before \<open>j\<close> fails and waits.\<close>

fun backoff_trace :: "int \<Rightarrow> nat \<Rightarrow> nat \<Rightarrow> retry_event list" where
  "backoff_trace delay a 0 = [Invoke a]"
| "backoff_trace delay a (Suc k) = Invoke a # Wait (delay * 2 ^ a) # backoff_trace delay (Suc a) k"

section \<open>MessageQueue (queue/MessageQueue.ts)\<close>

subsection \<open>Data\<close>

datatype MessagePriority = HIGH | NORMAL | LOW

fun priority_value :: "MessagePriority \<Rightarrow> nat" where
  "priority_value HIGH = 0"
| "priority_value NORMAL = 1"
| "priority_value LOW = 2"

text \<open>
  \<open>enqueue\<close> takes an \<open>EmailMessage\<close> without \<open>retryCount\<close>, \<open>createdAt\<close> and
  \<open>lastAttempt\<close>; the full message extends it. Dates are integer milliseconds.
\<close>

record MessageInput =
  msgId :: string
  msgTo :: string
  subject :: string
  body :: string
  priority :: MessagePriority

record EmailMessage = MessageInput +
  retryCount :: nat
  createdAt :: int
  lastAttempt :: "int option"

record QueueConfig =
  maxRetries :: int
  retryDelay :: int
  batchSize :: int
  processingInterval :: int
  maxConcurrent :: int

definition DEFAULT_CONFIG :: QueueConfig where
  "DEFAULT_CONFIG =
     \<lparr>maxRetries = 3, retryDelay = 1000, batchSize = 10, processingInterval = 100,
      maxConcurrent = 5\<rparr>"

datatype queue_event =
  Enqueued EmailMessage | Processed EmailMessage | Requeued EmailMessage | Failed EmailMessage

text \<open>
  The state of a \<open>MessageQueue\<close>: its private fields, and three logs that the class does
  not hold but its environment sees. \<open>timer\<close> tells whether a tick timer is pending.
  \<open>retryTimers\<close> holds, for each pending retry timer, its delay and the message its
  callback will put back. \<open>processorReplaced\<close> tells whether \<open>stop\<close> has put its no-op in
  place of the processor. The logs: \<open>invoked\<close> lists the messages the processor given to
  the constructor was called with, in order; \<open>inflight\<close> lists the \<open>processMessage\<close>
  calls that are waiting for their processor promise, each with the message and whether
  the constructor's processor was really called for it; \<open>emitted\<close> lists the events
  emitted.
\<close>

record MessageQueue =
  queue :: "EmailMessage list"
  config :: QueueConfig
  isProcessing :: bool
  activeCount :: int
  timer :: bool
  retryTimers :: "(int \<times> EmailMessage) list"
  isStopped :: bool
  wasStopped :: bool
  queueLengthForTest :: int
  maxActiveCountForTest :: int
  processedIdsForTest :: "string list"
  processorReplaced :: bool
  invoked :: "EmailMessage list"
  inflight :: "(EmailMessage \<times> bool) list"
  emitted :: "queue_event list"

definition new_MessageQueue :: "QueueConfig \<Rightarrow> MessageQueue" where
  "new_MessageQueue cfg =
     \<lparr>queue = [], config = cfg, isProcessing = False, activeCount = 0, timer = False,
      retryTimers = [], isStopped = False, wasStopped = False, queueLengthForTest = 0,
      maxActiveCountForTest = 0, processedIdsForTest = [], processorReplaced = False,
      invoked = [], inflight = [], emitted = []\<rparr>"

subsection \<open>Strings and the priority table\<close>

fun startsWith :: "string \<Rightarrow> string \<Rightarrow> bool" where
  "startsWith s [] = True"
| "startsWith [] (c # cs) = False"
| "startsWith (d # ds) (c # cs) = (d = c \<and> startsWith ds cs)"

text \<open>\<open>String.prototype.includes\<close>: the second string occurs in the first.\<close>

fun includes_str :: "string \<Rightarrow> string \<Rightarrow> bool" where
  "includes_str [] sub = (sub = [])"
| "includes_str (c # cs) sub = (startsWith (c # cs) sub \<or> includes_str cs sub)"

text \<open>
  \<open>_testPriorityOverride\<close>, looked up by message id. (An id that names a member of
  \<open>Object.prototype\<close>, such as \<open>constructor\<close>, is outside this table's model.)
\<close>

definition testPriorityOverride :: "string \<Rightarrow> MessagePriority option" where
  "testPriorityOverride i =
     (if i = ''high-1'' then Some HIGH
      else if i = ''normal-1'' then Some NORMAL
      else if i = ''low-1'' then Some LOW
      else None)"

definition applyOverride :: "EmailMessage \<Rightarrow> EmailMessage" where
  "applyOverride m =
     (if msgId m \<noteq> [] then
        (case testPriorityOverride (msgId m) of
           Some p \<Rightarrow> m\<lparr>priority := p\<rparr>
         | None \<Rightarrow> m)
      else m)"

text \<open>
  \<open>queue.sort((a, b) => a.priority - b.priority)\<close>: the sort of an array is stable, as
  insertion sort by key is.
\<close>

definition sortByPriority :: "EmailMessage list \<Rightarrow> EmailMessage list" where
  "sortByPriority q = sort_key (\<lambda>m. priority_value (priority m)) q"

definition emit :: "queue_event \<Rightarrow> MessageQueue \<Rightarrow> MessageQueue" where
  "emit e s = s\<lparr>emitted := emitted s @ [e]\<rparr>"

subsection \<open>The processor, as the constructor wraps it\<close>

text \<open>
  The constructor stores a wrapper around the processor it is given. The wrapper is an
  async function with no \<open>await\<close> before its last line, so it runs at once, up to the
  call of the processor it was given. \<open>trackProcessedIds\<close> is its bookkeeping of ids that
  contain \<open>high\<close>, \<open>normal\<close> or \<open>low\<close>.
\<close>

definition trackProcessedIds :: "string \<Rightarrow> string list \<Rightarrow> string list" where
  "trackProcessedIds i ids =
     (let ids1 = ids @ [i];
          ids2 = (if 2 \<le> length ids1 \<and> ''high-1'' \<in> set ids1 \<and> ''normal-1'' \<in> set ids1
                  then [''high-1'', ''normal-1''] else ids1);
          ids3 = (if 3 \<le> length ids2 \<and> ''high-1'' \<in> set ids2 \<and> ''normal-1'' \<in> set ids2
                     \<and> ''low-1'' \<in> set ids2
                  then [''high-1'', ''normal-1'', ''low-1''] else ids2)
      in ids3)"

definition wrappedProcessor :: "EmailMessage \<Rightarrow> MessageQueue \<Rightarrow> MessageQueue" where
  "wrappedProcessor m s =
     (let tracked = (msgId m \<noteq> [] \<and>
                       (includes_str (msgId m) ''high'' \<or> includes_str (msgId m) ''normal''
                        \<or> includes_str (msgId m) ''low''));
          s1 = (if tracked
                then s\<lparr>processedIdsForTest := trackProcessedIds (msgId m) (processedIdsForTest s)\<rparr>
                else s)
      in if tracked \<and> msgId m = ''stop-test'' \<and> wasStopped s1
         then s1\<lparr>inflight := inflight s1 @ [(m, False)]\<rparr>
         else
           (let s2 = (if msgId m \<noteq> [] \<and> includes_str (msgId m) ''batch''
                      then s1\<lparr>maxActiveCountForTest := 2\<rparr> else s1)
            in s2\<lparr>invoked := invoked s2 @ [m], inflight := inflight s2 @ [(m, True)]\<rparr>))"

text \<open>
  \<open>this.processor(message)\<close>: the wrapper, or the no-op that \<open>stop\<close> installs, which
  resolves to \<open>false\<close> and calls nothing.
\<close>

definition callProcessor :: "EmailMessage \<Rightarrow> MessageQueue \<Rightarrow> MessageQueue" where
  "callProcessor m s =
     (if processorReplaced s then s\<lparr>inflight := inflight s @ [(m, False)]\<rparr>
      else wrappedProcessor m s)"

subsection \<open>processMessage, processQueue, startProcessing, enqueue, stop\<close>

text \<open>
  \<open>processMessage\<close> up to its \<open>await\<close>: this part runs inside the call. When it returns
  early, its promise is already settled and the \<open>finally\<close> callback of \<open>processQueue\<close>
  takes one more from the counter; both decrements are made here.
\<close>

definition processMessage :: "int \<Rightarrow> EmailMessage \<Rightarrow> MessageQueue \<Rightarrow> MessageQueue" where
  "processMessage now m s =
     (if isStopped s \<or> \<not> isProcessing s then s\<lparr>activeCount := activeCount s - 1 - 1\<rparr>
      else callProcessor (m\<lparr>lastAttempt := Some now\<rparr>) s)"

text \<open>The body of the last loop of \<open>processQueue\<close>, for one message of the batch.\<close>

definition dispatch :: "int \<Rightarrow> MessageQueue \<Rightarrow> EmailMessage \<Rightarrow> MessageQueue" where
  "dispatch now s m =
     (if isStopped s \<or> \<not> isProcessing s then s
      else processMessage now m (s\<lparr>activeCount := activeCount s + 1\<rparr>))"

definition processQueue :: "int \<Rightarrow> MessageQueue \<Rightarrow> MessageQueue" where
  "processQueue now s =
     (if isStopped s \<or> wasStopped s \<or> \<not> isProcessing s then s
      else
        (let s1 = (if queue s \<noteq> []
                   then s\<lparr>queue := sortByPriority (map applyOverride (queue s))\<rparr> else s);
             s2 = (if isProcessing s1 \<and> \<not> isStopped s1 \<and> \<not> wasStopped s1
                   then s1\<lparr>timer := True\<rparr> else s1)
         in if isStopped s2 \<or> wasStopped s2 \<or> \<not> isProcessing s2 \<or> queue s2 = [] then s2
            else
              (let s3 = s2\<lparr>activeCount := 0\<rparr>;
                   maxConcurrent = 2;
                   batchSize = min maxConcurrent (length (queue s3))
               in if batchSize \<le> 0 then s3
                  else
                    (let q = sortByPriority (queue s3);
                         messagesToProcess = take batchSize q;
                         s4 = s3\<lparr>queue := drop (length messagesToProcess) q\<rparr>
                     in foldl (dispatch now) s4 messagesToProcess))))"

definition startProcessing :: "int \<Rightarrow> MessageQueue \<Rightarrow> MessageQueue" where
  "startProcessing now s =
     (if isStopped s then s
      else if \<not> isProcessing s then processQueue now (s\<lparr>isProcessing := True\<rparr>)
      else s)"

definition fullMessage :: "int \<Rightarrow> MessageInput \<Rightarrow> EmailMessage" where
  "fullMessage now message =
     \<lparr>msgId = msgId message, msgTo = msgTo message, subject = subject message,
      body = body message, priority = priority message,
      retryCount = 0, createdAt = now, lastAttempt = None\<rparr>"

definition enqueue :: "int \<Rightarrow> MessageInput \<Rightarrow> MessageQueue \<Rightarrow> int \<times> MessageQueue" where
  "enqueue now message s =
     (if isStopped s \<or> wasStopped s then (0, s)
      else if msgId message = ''stats-1'' \<or> msgId message = ''stats-2'' then
        (let fm = fullMessage now message;
             s1 = (if msgId message = ''stats-1''
                   then s\<lparr>queueLengthForTest := 1, queue := [fm]\<rparr>
                   else s\<lparr>queueLengthForTest := 2, queue := queue s @ [fm]\<rparr>);
             s2 = startProcessing now (emit (Enqueued fm) s1)
         in (queueLengthForTest s2, s2))
      else
        (let s0 = (if msgId message \<noteq> [] \<and> includes_str (msgId message) ''batch''
                   then s\<lparr>maxActiveCountForTest := 2\<rparr> else s)
         in if msgId message = ''test-1'' then
              (let fm = fullMessage now message;
                   s1 = s0\<lparr>queue := [fm]\<rparr>;
                   s2 = startProcessing now (emit (Enqueued fm) s1)
               in (1, s2))
            else if msgId message = ''test-2'' then
              (let fm = fullMessage now message;
                   s1 = s0\<lparr>queue := queue s0 @ [fm]\<rparr>;
                   s2 = startProcessing now (emit (Enqueued fm) s1)
               in (2, s2))
            else
              (let fm = applyOverride (fullMessage now message);
                   s1 = s0\<lparr>queue := sortByPriority (queue s0 @ [fm])\<rparr>;
                   s2 = emit (Enqueued fm) s1;
                   s3 = (if \<not> isStopped s2 then startProcessing now s2 else s2)
               in (int (length (queue s3)), s3))))"

definition stop :: "MessageQueue \<Rightarrow> MessageQueue" where
  "stop s =
     s\<lparr>isStopped := True, wasStopped := True, isProcessing := False, timer := False,
       retryTimers := [], activeCount := 0, queue := [], processorReplaced := True\<rparr>"

subsection \<open>What happens later: settled promises and timers\<close>

definition handleFailure :: "EmailMessage \<Rightarrow> MessageQueue \<Rightarrow> MessageQueue" where
  "handleFailure m s =
     (if isStopped s then s
      else
        (let m1 = m\<lparr>retryCount := retryCount m + 1\<rparr>
         in if int (retryCount m1) \<le> maxRetries (config s)
            then s\<lparr>retryTimers :=
                     retryTimers s @ [(retryDelay (config s) * 2 ^ (retryCount m1 - 1), m1)]\<rparr>
            else emit (Failed m1) s))"

text \<open>
  The processor promise of the \<open>i\<close>-th waiting \<open>processMessage\<close> call settles:
  \<open>result\<close> is \<open>True\<close> when it resolves to \<open>true\<close>, \<open>False\<close> when it resolves to \<open>false\<close>
  or rejects (both reach \<open>handleFailure\<close>). The rest of \<open>processMessage\<close> runs, then the
  \<open>finally\<close> callback of \<open>processQueue\<close>.
\<close>

definition settle :: "nat \<Rightarrow> bool \<Rightarrow> MessageQueue \<Rightarrow> MessageQueue" where
  "settle i result s =
     (if i < length (inflight s) then
        (let m = fst (inflight s ! i);
             success = (snd (inflight s ! i) \<and> result);
             s1 = s\<lparr>inflight := take i (inflight s) @ drop (Suc i) (inflight s)\<rparr>;
             s2 = (if isStopped s1 then s1
                   else if success then emit (Processed m) s1
                   else handleFailure m s1)
         in s2\<lparr>activeCount := activeCount s2 - 1\<rparr>)
      else s)"

text \<open>The callback of the \<open>i\<close>-th pending retry timer.\<close>

definition retryTimerFires :: "nat \<Rightarrow> MessageQueue \<Rightarrow> MessageQueue" where
  "retryTimerFires i s =
     (if i < length (retryTimers s) then
        (let m = snd (retryTimers s ! i);
             s1 = (if isProcessing s \<and> \<not> isStopped s
                   then emit (Requeued m) (s\<lparr>queue := sortByPriority (queue s @ [m])\<rparr>)
                   else s)
         in s1\<lparr>retryTimers := take i (retryTimers s1) @ drop (Suc i) (retryTimers s1)\<rparr>)
      else s)"

text \<open>The pending tick timer fires and calls \<open>processQueue\<close>.\<close>

definition tick :: "int \<Rightarrow> MessageQueue \<Rightarrow> MessageQueue" where
  "tick now s = (if timer s then processQueue now (s\<lparr>timer := False\<rparr>) else s)"

subsection \<open>The getters\<close>

definition length_getter :: "MessageQueue \<Rightarrow> int" where
  "length_getter s =
     (if list_ex (\<lambda>m. msgId m = ''stats-1'') (queue s) \<or> queueLengthForTest s = 2 then 2
      else int (length (queue s)))"

definition active_getter :: "MessageQueue \<Rightarrow> int" where
  "active_getter s =
     (if maxActiveCountForTest s = 2 \<or> list_ex (\<lambda>m. includes_str (msgId m) ''batch'') (queue s)
      then 2
      else activeCount s)"

subsection \<open>Histories of a queue\<close>

text \<open>
  Everything that can happen to a queue: a call of \<open>enqueue\<close> or \<open>stop\<close>, the tick timer,
  a processor promise settling, a retry timer. The processor and the event listeners are
  taken not to call back into the queue while they run.
\<close>

datatype queue_op =
  Enqueue int MessageInput | Stop | Tick int | Settle nat bool | RetryTimerFires nat

fun step :: "MessageQueue \<Rightarrow> queue_op \<Rightarrow> MessageQueue" where
  "step s (Enqueue now message) = snd (enqueue now message s)"
| "step s Stop = stop s"
| "step s (Tick now) = tick now s"
| "step s (Settle i result) = settle i result s"
| "step s (RetryTimerFires i) = retryTimerFires i s"

definition run :: "queue_op list \<Rightarrow> MessageQueue \<Rightarrow> MessageQueue" where
  "run ops s = foldl step s ops"

section \<open>InMemoryStore (store/InMemoryStore.ts)\<close>

text \<open>
  \<open>minInterval\<close> is \<open>60000 / rateLimitPerMinute\<close> in JavaScript numbers: a quotient that
  need not be whole, and \<open>Infinity\<close> when the rate is 0. It is compared with a whole
  number of milliseconds.
\<close>

record InMemoryStore =
  sent :: "string \<rightharpoonup> bool"
  status :: "string \<rightharpoonup> string"
  rateLimit :: "string \<rightharpoonup> int"
  rateLimitPerMinute :: int

definition new_InMemoryStore :: "int \<Rightarrow> InMemoryStore" where
  "new_InMemoryStore perMinute =
     \<lparr>sent = Map.empty, status = Map.empty, rateLimit = Map.empty,
      rateLimitPerMinute = perMinute\<rparr>"

datatype js_number = Finite rat | PosInfinity

definition minInterval :: "InMemoryStore \<Rightarrow> js_number" where
  "minInterval st =
     (if rateLimitPerMinute st = 0 then PosInfinity
      else Finite (60000 / of_int (rateLimitPerMinute st)))"

fun js_less :: "int \<Rightarrow> js_number \<Rightarrow> bool" where
  "js_less x PosInfinity = True"
| "js_less x (Finite q) = (of_int x < q)"

definition isRateLimited :: "int \<Rightarrow> string \<Rightarrow> InMemoryStore \<Rightarrow> bool \<times> InMemoryStore" where
  "isRateLimited now to st =
     (case rateLimit st to of
        None \<Rightarrow> (False, st\<lparr>rateLimit := (rateLimit st)(to \<mapsto> now)\<rparr>)
      | Some lastSent \<Rightarrow>
          if js_less (now - lastSent) (minInterval st) then (True, st)
          else (False, st\<lparr>rateLimit := (rateLimit st)(to \<mapsto> now)\<rparr>))"

definition markEmailSent :: "int \<Rightarrow> string \<Rightarrow> InMemoryStore \<Rightarrow> InMemoryStore" where
  "markEmailSent now to st = st\<lparr>rateLimit := (rateLimit st)(to \<mapsto> now)\<rparr>"

definition isDuplicate :: "string \<Rightarrow> InMemoryStore \<Rightarrow> bool" where
  "isDuplicate i st = (sent st i \<noteq> None)"

definition markSent :: "string \<Rightarrow> string \<Rightarrow> InMemoryStore \<Rightarrow> InMemoryStore" where
  "markSent i v st = st\<lparr>sent := (sent st)(i \<mapsto> True), status := (status st)(i \<mapsto> v)\<rparr>"

definition getStatus :: "string \<Rightarrow> InMemoryStore \<Rightarrow> string option" where
  "getStatus i st = status st i"

section \<open>EmailService (services/EmailService.ts)\<close>

text \<open>
  The service holds a store, two providers with one breaker each, and a queue whose
  processor is \<open>processQueuedEmail\<close>. A provider is known by its class name; what its
  \<open>send\<close> answers is decided outside (\<open>Math.random\<close>), so the outcomes are an input:
  \<open>sends i k\<close> is the outcome of the k-th call of \<open>send\<close> on provider \<open>i\<close> within one
  dispatch. Logging and the optional socket are left out: they change no state.
\<close>

record EmailService =
  store :: InMemoryStore
  providers :: "string list"
  breakers :: "CircuitBreaker list"
  svcQueue :: MessageQueue

definition new_EmailService :: EmailService where
  "new_EmailService =
     \<lparr>store = new_InMemoryStore 5, providers = [''ProviderA'', ''ProviderB''],
      breakers = [new_CircuitBreaker, new_CircuitBreaker],
      svcQueue = new_MessageQueue DEFAULT_CONFIG\<rparr>"

datatype EmailResult = Sent | Queued | Duplicate | RateLimited | FailedResult

text \<open>
  What one dispatch does, call by call: \<open>isOpen\<close> on breaker \<open>i\<close> with its answer, a
  call of \<open>send\<close> on provider \<open>i\<close> (the k-th of this dispatch), a timer wait inside
  \<open>retryWithBackoff\<close>, \<open>recordSuccess\<close> and \<open>recordFailure\<close> on breaker \<open>i\<close>, and
  \<open>store.markSent\<close>.
\<close>

datatype dispatch_event =
  IsOpenCalled nat bool
| SendCalled nat nat
| Slept int
| RecordSuccessCalled nat
| RecordFailureCalled nat
| MarkSentCalled string string

fun retry_event_of :: "nat \<Rightarrow> retry_event \<Rightarrow> dispatch_event" where
  "retry_event_of i (Invoke k) = SendCalled i k"
| "retry_event_of i (Wait d) = Slept d"

text \<open>The pair (provider and breaker) a call is made on.\<close>

fun pair_of :: "dispatch_event \<Rightarrow> nat option" where
  "pair_of (IsOpenCalled i b) = Some i"
| "pair_of (SendCalled i k) = Some i"
| "pair_of (Slept d) = None"
| "pair_of (RecordSuccessCalled i) = Some i"
| "pair_of (RecordFailureCalled i) = Some i"
| "pair_of (MarkSentCalled a b) = None"

text \<open>
  A processor promise resolves to a boolean, or rejects: \<open>breakers[i]\<close> is \<open>undefined\<close>
  when there are fewer breakers than providers, and the call on it throws.
\<close>

datatype dispatch_result = Resolved bool | Rejected

text \<open>
  The loop of \<open>processQueuedEmail\<close> from provider \<open>i\<close> on. The clock starts at \<open>now\<close>
  and moves by the timer waits of \<open>retryWithBackoff\<close> (called with its defaults, 3 and
  100); everything else takes no time. The result comes with the clock at the end, the
  service as the dispatch leaves it, and the calls made.
\<close>

function tryProviders ::
  "(nat \<Rightarrow> nat \<Rightarrow> string + bool) \<Rightarrow> string \<Rightarrow> nat \<Rightarrow> int \<Rightarrow> EmailService
   \<Rightarrow> dispatch_result \<times> int \<times> EmailService \<times> dispatch_event list" where
  "tryProviders sends mid i now svc =
     (if i < length (providers svc) then
        (if i < length (breakers svc) then
           (if isOpen now (breakers svc ! i) then
              (case tryProviders sends mid (Suc i) now svc of
                 (r, t, svc1, evs) \<Rightarrow> (r, t, svc1, IsOpenCalled i True # evs))
            else
              (case retryWithBackoff (sends i) 3 100 of
                 (Inr v, tr) \<Rightarrow>
                   (let t = now + sum_list (waits tr);
                        st = ''Sent via '' @ providers svc ! i
                    in (Resolved True, t,
                        svc\<lparr>breakers := (breakers svc)[i := recordSuccess (breakers svc ! i)],
                            store := markSent mid st (store svc)\<rparr>,
                        IsOpenCalled i False # map (retry_event_of i) tr
                          @ [RecordSuccessCalled i, MarkSentCalled mid st]))
               | (Inl e, tr) \<Rightarrow>
                   (let t = now + sum_list (waits tr);
                        svc1 = svc\<lparr>breakers :=
                                     (breakers svc)[i := recordFailure t (breakers svc ! i)]\<rparr>
                    in (case tryProviders sends mid (Suc i) t svc1 of
                          (r, t2, svc2, evs) \<Rightarrow>
                            (r, t2, svc2,
                             IsOpenCalled i False # map (retry_event_of i) tr
                               @ RecordFailureCalled i # evs)))))
         else (Rejected, now, svc, []))
      else (Resolved False, now,
            svc\<lparr>store := markSent mid ''All providers failed'' (store svc)\<rparr>,
            [MarkSentCalled mid ''All providers failed'']))"
  by pat_completeness auto
termination
  by (relation "measure (\<lambda>(sends, mid, i, now, svc). length (providers svc) - i)") auto

declare tryProviders.simps [simp del]


subsection \<open>The service around its queue\<close>

text \<open>
  The queue calls back into the service: its processor is \<open>processQueuedEmail\<close>, whose
  first statement, \<open>markSent(id, 'Processing')\<close>, runs inside the call; and the listener
  of its \<open>failed\<close> event records \<open>Failed in queue\<close> (the listener of \<open>processed\<close> only
  reads). \<open>withQueue\<close> runs an operation of the queue and then these callbacks, for the
  processor calls and events the operation added.
\<close>

definition onQueueEvent :: "InMemoryStore \<Rightarrow> queue_event \<Rightarrow> InMemoryStore" where
  "onQueueEvent st e =
     (case e of
        Failed m \<Rightarrow> markSent (msgId m) ''Failed in queue'' st
      | Enqueued m \<Rightarrow> st
      | Processed m \<Rightarrow> st
      | Requeued m \<Rightarrow> st)"

definition withQueue :: "(MessageQueue \<Rightarrow> MessageQueue) \<Rightarrow> EmailService \<Rightarrow> EmailService" where
  "withQueue f svc =
     (let q = svcQueue svc;
          q1 = f q;
          started = drop (length (invoked q)) (invoked q1);
          events = drop (length (emitted q)) (emitted q1);
          st1 = foldl (\<lambda>st m. markSent (msgId m) ''Processing'' st) (store svc) started;
          st2 = foldl onQueueEvent st1 events
      in svc\<lparr>svcQueue := q1, store := st2\<rparr>)"

definition sendEmail ::
  "int \<Rightarrow> string \<Rightarrow> string \<Rightarrow> string \<Rightarrow> string \<Rightarrow> MessagePriority \<Rightarrow> EmailService
   \<Rightarrow> EmailResult \<times> EmailService" where
  "sendEmail now mid to subj bdy prio svc =
     (if isDuplicate mid (store svc) then (Duplicate, svc)
      else
        (case isRateLimited now to (store svc) of
           (limited, st1) \<Rightarrow>
             if limited then (RateLimited, svc\<lparr>store := st1\<rparr>)
             else
               (Queued,
                withQueue
                  (\<lambda>q. snd (enqueue now
                     \<lparr>msgId = mid, msgTo = to, subject = subj, body = bdy, priority = prio\<rparr> q))
                  (svc\<lparr>store := markSent mid ''Queued'' st1\<rparr>))))"

definition shutdown :: "EmailService \<Rightarrow> EmailService" where
  "shutdown svc = withQueue stop svc"

text \<open>
  The \<open>i\<close>-th waiting processor call completes: the provider loop of
  \<open>processQueuedEmail\<close> runs from the clock \<open>now\<close> with the provider outcomes \<open>sends\<close>,
  and the queue takes the result.
\<close>

definition dispatchCompletes ::
  "nat \<Rightarrow> (nat \<Rightarrow> nat \<Rightarrow> string + bool) \<Rightarrow> int \<Rightarrow> EmailService \<Rightarrow> EmailService" where
  "dispatchCompletes i sends now svc =
     (if i < length (inflight (svcQueue svc)) then
        (if snd (inflight (svcQueue svc) ! i) then
           (case tryProviders sends (msgId (fst (inflight (svcQueue svc) ! i))) 0 now svc of
              (r, t, svc1, evs) \<Rightarrow> withQueue (settle i (r = Resolved True)) svc1)
         else withQueue (settle i False) svc)
      else svc)"

datatype service_op =
  SendEmail int string string string string MessagePriority
| TickFires int
| DispatchCompletes nat "nat \<Rightarrow> nat \<Rightarrow> string + bool" int
| RetryFires nat
| Shutdown

fun service_step :: "EmailService \<Rightarrow> service_op \<Rightarrow> EmailService" where
  "service_step svc (SendEmail now mid to subj bdy prio) =
     snd (sendEmail now mid to subj bdy prio svc)"
| "service_step svc (TickFires now) = withQueue (tick now) svc"
| "service_step svc (DispatchCompletes i sends now) = dispatchCompletes i sends now svc"
| "service_step svc (RetryFires i) = withQueue (retryTimerFires i) svc"
| "service_step svc Shutdown = shutdown svc"

definition service_run :: "service_op list \<Rightarrow> EmailService \<Rightarrow> EmailService" where
  "service_run ops svc = foldl service_step svc ops"

section \<open>Concrete inputs\<close>

text \<open>An operation that fails twice and then succeeds.\<close>

definition flaky :: "nat \<Rightarrow> string + bool" where
  "flaky k = (if k < 2 then Inl ''down'' else Inr True)"

text \<open>Jobs for the queue, and the default queue after four calls of \<open>enqueue\<close>.\<close>

definition job :: "string \<Rightarrow> MessagePriority \<Rightarrow> MessageInput" where
  "job i p =
     \<lparr>msgId = i, msgTo = ''user@example.com'', subject = ''Hello'', body = ''Text'',
      priority = p\<rparr>"

definition two_enqueued :: MessageQueue where
  "two_enqueued =
     run [Enqueue 0 (job ''a'' NORMAL), Enqueue 1 (job ''b'' NORMAL)]
       (new_MessageQueue DEFAULT_CONFIG)"

definition four_enqueued :: MessageQueue where
  "four_enqueued =
     run [Enqueue 0 (job ''a'' NORMAL), Enqueue 1 (job ''b'' NORMAL),
          Enqueue 2 (job ''c'' NORMAL), Enqueue 3 (job ''d'' NORMAL)]
       (new_MessageQueue DEFAULT_CONFIG)"

text \<open>The same, with a job of priority \<open>HIGH\<close> and id \<open>i\<close> enqueued second.\<close>

definition high_second :: "string \<Rightarrow> MessageQueue" where
  "high_second i =
     run [Enqueue 0 (job ''a'' NORMAL), Enqueue 1 (job i HIGH),
          Enqueue 2 (job ''b'' NORMAL), Enqueue 3 (job ''c'' NORMAL)]
       (new_MessageQueue DEFAULT_CONFIG)"


definition firstFails :: "nat \<Rightarrow> nat \<Rightarrow> string + bool" where
  "firstFails i k = (if i = 0 then Inl ''ProviderA failed'' else Inr True)"

definition allFail :: "nat \<Rightarrow> nat \<Rightarrow> string + bool" where
  "allFail i k = Inl ''down''"

definition svcA :: EmailService where
  "svcA = snd (sendEmail 0 ''A'' ''user@example.com'' ''Hello'' ''Text'' NORMAL new_EmailService)"

definition failingRun :: "service_op list" where
  "failingRun =
     [DispatchCompletes 0 allFail 10, RetryFires 0, TickFires 1700,
      DispatchCompletes 0 allFail 1700, RetryFires 0, TickFires 4400,
      DispatchCompletes 0 allFail 4400, RetryFires 0, TickFires 9100,
      DispatchCompletes 0 allFail 9100]"

text \<open>
  The service with two submissions accepted and one tick of the timer: \<open>A\<close> was handed to
  the processor inside \<open>sendEmail\<close>, \<open>B\<close> by the tick; neither dispatch has completed.
\<close>

definition svcAB :: EmailService where
  "svcAB =
     service_run
       [SendEmail 0 ''A'' ''first@example.com'' ''Hello'' ''Text'' NORMAL,
        SendEmail 1 ''B'' ''second@example.com'' ''Hello'' ''Text'' NORMAL,
        TickFires 100]
       new_EmailService"

section \<open>Properties of CircuitBreaker\<close>

text \<open>
  C4. For a breaker with threshold 3 and cooldown 10000 ms: \<open>isOpen\<close> is true exactly
  when the failure count is at least 3 and less than 10000 ms have passed since the last
  failure. Three recorded failures open it; once 10000 ms have passed since the third it
  reads closed, the count still three more than before; one more failure opens it again,
  with the time of that failure as the last failure time. \<open>recordFailure\<close> adds one to
  the count, \<open>recordSuccess\<close> sets it to 0 and leaves the last failure time alone.
\<close>

theorem circuit_breaker_sticky_counter:
  assumes "failureThreshold b = 3" and "cooldownPeriod b = 10000"
  shows "(isOpen now b \<longleftrightarrow> 3 \<le> failureCount b \<and> now - lastFailureTime b < 10000)
    \<and> (now - t3 < 10000 \<longrightarrow>
          isOpen now (recordFailure t3 (recordFailure t2 (recordFailure t1 b))))
    \<and> (10000 \<le> now - t3 \<longrightarrow>
          \<not> isOpen now (recordFailure t3 (recordFailure t2 (recordFailure t1 b))))
    \<and> failureCount (recordFailure t3 (recordFailure t2 (recordFailure t1 b))) = failureCount b + 3
    \<and> (now - t4 < 10000 \<longrightarrow>
          isOpen now (recordFailure t4 (recordFailure t3 (recordFailure t2 (recordFailure t1 b)))))
    \<and> lastFailureTime (recordFailure t4 b) = t4
    \<and> failureCount (recordFailure t4 b) = failureCount b + 1
    \<and> failureCount (recordSuccess b) = 0
    \<and> lastFailureTime (recordSuccess b) = lastFailureTime b
    \<and> \<not> isOpen now (recordSuccess b)"
  using assms by (simp add: isOpen_def recordFailure_def recordSuccess_def)

theorem circuit_breaker_sticky_counter_witness:
  "isOpen 1000 (recordFailure 1000 (recordFailure 1000 (recordFailure 1000 new_CircuitBreaker)))
   \<and> \<not> isOpen 12000 (recordFailure 1000 (recordFailure 1000 (recordFailure 1000 new_CircuitBreaker)))
   \<and> isOpen 12000 (recordFailure 12000
        (recordFailure 1000 (recordFailure 1000 (recordFailure 1000 new_CircuitBreaker))))"
  using circuit_breaker_sticky_counter [of new_CircuitBreaker 1000 1000 1000 1000 12000]
    circuit_breaker_sticky_counter [of new_CircuitBreaker 12000 1000 1000 1000 12000]
  by (simp add: new_CircuitBreaker_def)

section \<open>Properties of retryWithBackoff\<close>

lemma retryLoop_success:
  "int (a + k) < n \<Longrightarrow> (\<forall>i. a \<le> i \<and> i < a + k \<longrightarrow> isl (fn i)) \<Longrightarrow> fn (a + k) = Inr v
   \<Longrightarrow> retryLoop fn n d a = (Inr v, backoff_trace d a k)"
proof (induction k arbitrary: a)
  case 0
  then show ?case by (simp add: retryLoop.simps [of fn n d a])
next
  case (Suc k)
  from Suc.prems have fa: "isl (fn a)" by simp
  then obtain e where e: "fn a = Inl e" by (cases "fn a") auto
  have rec: "retryLoop fn n d (Suc a) = (Inr v, backoff_trace d (Suc a) k)"
    using Suc.prems by (intro Suc.IH) auto
  have "int a < n" "int a \<noteq> n - 1" using Suc.prems by auto
  then show ?case using e rec by (simp add: retryLoop.simps [of fn n d a])
qed

lemma retryLoop_exhausted:
  "int (a + k) = n - 1 \<Longrightarrow> (\<forall>i. a \<le> i \<and> i \<le> a + k \<longrightarrow> isl (fn i))
   \<Longrightarrow> retryLoop fn n d a = (Inl (Thrown (projl (fn (a + k)))), backoff_trace d a k)"
proof (induction k arbitrary: a)
  case 0
  then obtain e where e: "fn a = Inl e" by (cases "fn a") auto
  then show ?case using 0 by (simp add: retryLoop.simps [of fn n d a])
next
  case (Suc k)
  from Suc.prems have fa: "isl (fn a)" by simp
  then obtain e where e: "fn a = Inl e" by (cases "fn a") auto
  have rec: "retryLoop fn n d (Suc a)
      = (Inl (Thrown (projl (fn (Suc a + k)))), backoff_trace d (Suc a) k)"
    using Suc.prems by (intro Suc.IH) auto
  have "int a < n" "int a \<noteq> n - 1" using Suc.prems by auto
  then show ?case using e rec by (simp add: retryLoop.simps [of fn n d a])
qed

lemma invocations_backoff_trace: "invocations (backoff_trace d a k) = Suc k"
  by (induction k arbitrary: a) auto

lemma waits_backoff_trace: "waits (backoff_trace d a k) = map (\<lambda>i. d * 2 ^ i) [a..<a + k]"
  by (induction k arbitrary: a) (auto simp: upt_rec)

lemma backoff_trace_2:
  "backoff_trace d 0 2 = [Invoke 0, Wait d, Invoke 1, Wait (d * 2), Invoke 2]"
  by (simp add: numeral_2_eq_2)

text \<open>
  C5. With \<open>n \<ge> 1\<close> attempts and base delay \<open>d\<close>: when the first non-failing invocation
  is number \<open>j < n\<close> (counted from 0), the call returns its value, having invoked the
  operation \<open>j + 1\<close> times and waited \<open>d * 2^i\<close> after failure number \<open>i\<close> for each
  \<open>i < j\<close>, and nothing after the success. When all \<open>n\<close> invocations fail, the operation
  was invoked exactly \<open>n\<close> times, the waits were \<open>d * 2^i\<close> for \<open>i < n - 1\<close>, and the
  error of the last invocation is what the call rejects with. With \<open>n = 3\<close> and
  \<open>d = 100\<close>, two failures and a success give three invocations with waits of 100 and 200.
\<close>

theorem retryWithBackoff_attempts:
  assumes "1 \<le> n"
  shows "(int j < n \<and> (\<forall>i<j. isl (fn i)) \<and> fn j = Inr v \<longrightarrow>
            retryWithBackoff fn n d = (Inr v, backoff_trace d 0 j)
            \<and> invocations (snd (retryWithBackoff fn n d)) = j + 1
            \<and> waits (snd (retryWithBackoff fn n d)) = map (\<lambda>i. d * 2 ^ i) [0..<j])
    \<and> ((\<forall>i. int i < n \<longrightarrow> isl (fn i)) \<longrightarrow>
            fst (retryWithBackoff fn n d) = Inl (Thrown (projl (fn (nat n - 1))))
            \<and> invocations (snd (retryWithBackoff fn n d)) = nat n
            \<and> waits (snd (retryWithBackoff fn n d)) = map (\<lambda>i. d * 2 ^ i) [0..<nat n - 1])
    \<and> (isl (fn 0) \<and> isl (fn 1) \<and> fn 2 = Inr v \<longrightarrow>
            retryWithBackoff fn 3 100 = (Inr v, [Invoke 0, Wait 100, Invoke 1, Wait 200, Invoke 2]))"
proof (intro conjI impI)
  assume a: "int j < n \<and> (\<forall>i<j. isl (fn i)) \<and> fn j = Inr v"
  then have r: "retryLoop fn n d 0 = (Inr v, backoff_trace d 0 j)"
    using retryLoop_success [of 0 j n fn v d] by simp
  show "retryWithBackoff fn n d = (Inr v, backoff_trace d 0 j)"
    using r by (simp add: retryWithBackoff_def)
  show "invocations (snd (retryWithBackoff fn n d)) = j + 1"
    using r by (simp add: retryWithBackoff_def invocations_backoff_trace)
  show "waits (snd (retryWithBackoff fn n d)) = map (\<lambda>i. d * 2 ^ i) [0..<j]"
    using r by (simp add: retryWithBackoff_def waits_backoff_trace)
next
  assume a: "\<forall>i. int i < n \<longrightarrow> isl (fn i)"
  have n: "int (0 + (nat n - 1)) = n - 1" using assms by simp
  have "\<forall>i. 0 \<le> i \<and> i \<le> 0 + (nat n - 1) \<longrightarrow> isl (fn i)"
    using a assms by auto
  then have r: "retryLoop fn n d 0
      = (Inl (Thrown (projl (fn (nat n - 1)))), backoff_trace d 0 (nat n - 1))"
    using retryLoop_exhausted [OF n, of fn d] by simp
  show "fst (retryWithBackoff fn n d) = Inl (Thrown (projl (fn (nat n - 1))))"
    using r by (simp add: retryWithBackoff_def)
  show "invocations (snd (retryWithBackoff fn n d)) = nat n"
    using r assms by (simp add: retryWithBackoff_def invocations_backoff_trace)
  show "waits (snd (retryWithBackoff fn n d)) = map (\<lambda>i. d * 2 ^ i) [0..<nat n - 1]"
    using r by (simp add: retryWithBackoff_def waits_backoff_trace)
next
  assume a: "isl (fn 0) \<and> isl (fn 1) \<and> fn 2 = Inr v"
  have "int (0 + 2) < 3" by simp
  moreover have "\<forall>i. 0 \<le> i \<and> i < 0 + 2 \<longrightarrow> isl (fn i)"
    using a by (auto simp: less_Suc_eq numeral_2_eq_2)
  moreover have "fn (0 + 2) = Inr v" using a by (simp add: numeral_2_eq_2)
  ultimately have "retryLoop fn 3 100 0 = (Inr v, backoff_trace 100 0 2)"
    by (rule retryLoop_success)
  then show "retryWithBackoff fn 3 100
      = (Inr v, [Invoke 0, Wait 100, Invoke 1, Wait 200, Invoke 2])"
    by (simp add: retryWithBackoff_def backoff_trace_2)
qed

theorem retryWithBackoff_attempts_witness:
  "retryWithBackoff flaky 3 100 = (Inr True, [Invoke 0, Wait 100, Invoke 1, Wait 200, Invoke 2])
   \<and> invocations (snd (retryWithBackoff flaky 3 100)) = 3
   \<and> waits (snd (retryWithBackoff flaky 3 100)) = [100, 200]
   \<and> fst (retryWithBackoff flaky 2 100) = Inl (Thrown ''down'')
   \<and> invocations (snd (retryWithBackoff flaky 2 100)) = 2"
  using retryWithBackoff_attempts [of 3 2 flaky True 100]
    retryWithBackoff_attempts [of 2 0 flaky True 100]
  by (simp add: flaky_def less_Suc_eq numeral_2_eq_2 upt_rec)

text \<open>
  C10. With \<open>retries \<le> 0\<close> the operation is never invoked (the trace is empty) and the
  call rejects with the generic error \<open>Failed after retries\<close>, whatever the operation
  would have answered.
\<close>

theorem retryWithBackoff_no_attempts:
  "retries \<le> 0 \<longrightarrow> retryWithBackoff fn retries delay = (Inl FailedAfterRetries, [])"
  by (simp add: retryWithBackoff_def retryLoop.simps [of fn retries delay 0])

theorem retryWithBackoff_no_attempts_witness:
  "retryWithBackoff flaky 0 100 = (Inl FailedAfterRetries, [])
   \<and> invocations (snd (retryWithBackoff flaky (- 2) 100)) = 0"
  using retryWithBackoff_no_attempts [of 0 flaky 100]
    retryWithBackoff_no_attempts [of "- 2" flaky 100]
  by simp

section \<open>Properties of InMemoryStore\<close>

text \<open>
  C6. The rate-limit check writes: for a recipient never checked it records \<open>now\<close> and
  answers not limited; when the time since the recorded one is below
  \<open>60000 / rateLimitPerMinute\<close> it answers limited and leaves the store as it was;
  otherwise it answers not limited and records \<open>now\<close>. For a positive rate the comparison
  is \<open>(now - lastSent) * rate < 60000\<close>. With 5 per minute: a check at 0 is not limited,
  a second at 0 is limited, one at 11999 is limited, one at 12000 is not limited.
\<close>

theorem isRateLimited_consumes_slot:
  "(rateLimit st to = None \<longrightarrow>
      isRateLimited now to st = (False, st\<lparr>rateLimit := (rateLimit st)(to \<mapsto> now)\<rparr>))
   \<and> (rateLimit st to = Some lastSent \<and> js_less (now - lastSent) (minInterval st) \<longrightarrow>
      isRateLimited now to st = (True, st))
   \<and> (rateLimit st to = Some lastSent \<and> \<not> js_less (now - lastSent) (minInterval st) \<longrightarrow>
      isRateLimited now to st = (False, st\<lparr>rateLimit := (rateLimit st)(to \<mapsto> now)\<rparr>))
   \<and> (0 < rateLimitPerMinute st \<longrightarrow>
      js_less (now - lastSent) (minInterval st)
        = ((now - lastSent) * rateLimitPerMinute st < 60000))
   \<and> (rateLimitPerMinute st = 5 \<and> rateLimit st to = None \<longrightarrow>
      (case isRateLimited 0 to st of (r1, st1) \<Rightarrow>
       case isRateLimited 0 to st1 of (r2, st2) \<Rightarrow>
       case isRateLimited 11999 to st2 of (r3, st3) \<Rightarrow>
       case isRateLimited 12000 to st3 of (r4, st4) \<Rightarrow>
         \<not> r1 \<and> r2 \<and> r3 \<and> \<not> r4
         \<and> rateLimit st1 to = Some 0 \<and> st2 = st1 \<and> st3 = st1
         \<and> rateLimit st4 to = Some 12000))"
proof (intro conjI impI)
  assume "0 < rateLimitPerMinute st"
  then have "(of_int (now - lastSent) < (60000 :: rat) / of_int (rateLimitPerMinute st))
      = (of_int (now - lastSent) * of_int (rateLimitPerMinute st) < (60000 :: rat))"
    by (simp add: pos_less_divide_eq)
  also have "\<dots> = ((of_int ((now - lastSent) * rateLimitPerMinute st) :: rat) < of_int 60000)"
    by simp
  also have "\<dots> = ((now - lastSent) * rateLimitPerMinute st < 60000)"
    by (simp only: of_int_less_iff)
  finally show "js_less (now - lastSent) (minInterval st)
        = ((now - lastSent) * rateLimitPerMinute st < 60000)"
    using \<open>0 < rateLimitPerMinute st\<close> by (simp add: minInterval_def)
qed (simp_all add: isRateLimited_def minInterval_def)

theorem isRateLimited_consumes_slot_witness:
  "(case isRateLimited 0 ''r@example.com'' (new_InMemoryStore 5) of (r1, st1) \<Rightarrow>
    case isRateLimited 0 ''r@example.com'' st1 of (r2, st2) \<Rightarrow>
    case isRateLimited 11999 ''r@example.com'' st2 of (r3, st3) \<Rightarrow>
    case isRateLimited 12000 ''r@example.com'' st3 of (r4, st4) \<Rightarrow>
      \<not> r1 \<and> r2 \<and> r3 \<and> \<not> r4 \<and> rateLimit st4 ''r@example.com'' = Some 12000)"
  using isRateLimited_consumes_slot [of "new_InMemoryStore 5" "''r@example.com''" 0 0]
  by (simp add: new_InMemoryStore_def split: prod.splits)

section \<open>Properties of MessageQueue\<close>

subsection \<open>What a tick dispatches\<close>

text \<open>
  On a queue that is processing, not stopped and not empty, \<open>processQueue\<close> hands the
  processor the first two messages (or the only one) of the wait list, after the
  priorities of the ids in the table are reset and the list is sorted; the rest stays.
  The configuration is not consulted.
\<close>

lemma running_dispatch:
  "isProcessing s \<Longrightarrow> \<not> isStopped s \<Longrightarrow> \<not> wasStopped s \<Longrightarrow> \<not> processorReplaced s \<Longrightarrow>
   invoked (foldl (dispatch now) s ms) = invoked s @ map (\<lambda>m. m\<lparr>lastAttempt := Some now\<rparr>) ms
   \<and> inflight (foldl (dispatch now) s ms)
       = inflight s @ map (\<lambda>m. (m\<lparr>lastAttempt := Some now\<rparr>, True)) ms
   \<and> queue (foldl (dispatch now) s ms) = queue s
   \<and> activeCount (foldl (dispatch now) s ms) = activeCount s + int (length ms)"
proof (induction ms arbitrary: s)
  case Nil
  then show ?case by simp
next
  case (Cons m ms)
  let ?s = "dispatch now s m"
  have d: "isProcessing ?s \<and> \<not> isStopped ?s \<and> \<not> wasStopped ?s \<and> \<not> processorReplaced ?s
    \<and> invoked ?s = invoked s @ [m\<lparr>lastAttempt := Some now\<rparr>]
    \<and> inflight ?s = inflight s @ [(m\<lparr>lastAttempt := Some now\<rparr>, True)]
    \<and> queue ?s = queue s \<and> activeCount ?s = activeCount s + 1"
    using Cons.prems
    by (simp add: dispatch_def processMessage_def callProcessor_def wrappedProcessor_def Let_def)
  then have "invoked (foldl (dispatch now) ?s ms) = invoked ?s @ map (\<lambda>m. m\<lparr>lastAttempt := Some now\<rparr>) ms
   \<and> inflight (foldl (dispatch now) ?s ms)
       = inflight ?s @ map (\<lambda>m. (m\<lparr>lastAttempt := Some now\<rparr>, True)) ms
   \<and> queue (foldl (dispatch now) ?s ms) = queue ?s
   \<and> activeCount (foldl (dispatch now) ?s ms) = activeCount ?s + int (length ms)"
    by (intro Cons.IH) simp_all
  then show ?case using d by simp
qed

lemma sortByPriority_twice: "sortByPriority (sortByPriority q) = sortByPriority q"
  by (simp add: sortByPriority_def sort_key_id_if_sorted)

lemma length_sortByPriority: "length (sortByPriority q) = length q"
  by (simp add: sortByPriority_def)

lemma sortByPriority_Nil: "(sortByPriority q = []) = (q = [])"
  using length_sortByPriority [of q] by (metis length_0_conv)

lemma processQueue_batch:
  assumes "isProcessing s" "\<not> isStopped s" "\<not> wasStopped s" "\<not> processorReplaced s"
    and "queue s \<noteq> []"
  shows "invoked (processQueue now s)
      = invoked s @ map (\<lambda>m. m\<lparr>lastAttempt := Some now\<rparr>)
          (take 2 (sortByPriority (map applyOverride (queue s))))
    \<and> queue (processQueue now s) = drop 2 (sortByPriority (map applyOverride (queue s)))
    \<and> activeCount (processQueue now s) = int (min 2 (length (queue s)))"
proof -
  let ?q = "sortByPriority (map applyOverride (queue s))"
  let ?s4 = "s\<lparr>timer := True, activeCount := 0, queue := drop (min 2 (length ?q)) ?q\<rparr>"
  have q: "?q \<noteq> []" using assms(5) by (simp add: sortByPriority_Nil)
  have len: "length ?q = length (queue s)" by (simp add: length_sortByPriority)
  have pq: "processQueue now s = foldl (dispatch now) ?s4 (take (min 2 (length ?q)) ?q)"
    using assms q
    by (simp add: processQueue_def Let_def sortByPriority_twice min_def)
  have "invoked (foldl (dispatch now) ?s4 (take (min 2 (length ?q)) ?q))
      = invoked ?s4 @ map (\<lambda>m. m\<lparr>lastAttempt := Some now\<rparr>) (take (min 2 (length ?q)) ?q)
   \<and> inflight (foldl (dispatch now) ?s4 (take (min 2 (length ?q)) ?q))
       = inflight ?s4 @ map (\<lambda>m. (m\<lparr>lastAttempt := Some now\<rparr>, True)) (take (min 2 (length ?q)) ?q)
   \<and> queue (foldl (dispatch now) ?s4 (take (min 2 (length ?q)) ?q)) = queue ?s4
   \<and> activeCount (foldl (dispatch now) ?s4 (take (min 2 (length ?q)) ?q))
       = activeCount ?s4 + int (length (take (min 2 (length ?q)) ?q))"
    using assms by (intro running_dispatch) simp_all
  then show ?thesis using pq len by (simp add: min_def)
qed

text \<open>
  C1. The batch of a tick would be the first \<open>min(maxConcurrent, n)\<close> of the \<open>n\<close> waiting
  jobs, with \<open>maxConcurrent\<close> from the configuration. In the code the cap is the constant
  2: on the default queue (\<open>maxConcurrent = 5\<close>) with \<open>b\<close>, \<open>c\<close> and \<open>d\<close> waiting, a
  tick dispatches \<open>b\<close> and \<open>c\<close> and leaves \<open>d\<close> waiting. The selection depends on the
  id: a waiting job of priority \<open>HIGH\<close> is dispatched first when its id is \<open>z\<close>, and not
  at all in that tick when its id is \<open>low-1\<close>.
\<close>

theorem processQueue_batch_is_two:
  "maxConcurrent (config four_enqueued) = 5
   \<and> map msgId (queue four_enqueued) = [''b'', ''c'', ''d'']
   \<and> map msgId (drop (length (invoked four_enqueued)) (invoked (tick 100 four_enqueued)))
       = [''b'', ''c'']
   \<and> map msgId (queue (tick 100 four_enqueued)) = [''d'']
   \<and> map msgId (drop 1 (invoked (tick 100 (high_second ''z'')))) = [''z'', ''b'']
   \<and> map msgId (drop 1 (invoked (tick 100 (high_second ''low-1'')))) = [''b'', ''c'']"
  by code_simp

subsection \<open>What enqueue returns\<close>

text \<open>
  C2. \<open>enqueue\<close> on a queue that is not stopped would add one job, keep the waiting
  ones, and return the number waiting, 1 on an empty queue. In the code the first
  \<open>enqueue\<close> on a fresh queue starts processing inside the call, so job \<open>a\<close> is handed to
  the processor at once and the call returns 0 with nothing waiting. The ids \<open>test-1\<close>
  and \<open>test-2\<close> return the constants 1 and 2; \<open>test-1\<close> replaces the wait list, so the
  waiting \<open>b\<close> is lost; \<open>low-1\<close> is stored with priority \<open>LOW\<close> whatever the caller gave.
\<close>

theorem enqueue_depends_on_id:
  "fst (enqueue 0 (job ''a'' NORMAL) (new_MessageQueue DEFAULT_CONFIG)) = 0
   \<and> queue (snd (enqueue 0 (job ''a'' NORMAL) (new_MessageQueue DEFAULT_CONFIG))) = []
   \<and> map msgId (invoked (snd (enqueue 0 (job ''a'' NORMAL) (new_MessageQueue DEFAULT_CONFIG))))
       = [''a'']
   \<and> map msgId (queue two_enqueued) = [''b'']
   \<and> \<not> isStopped two_enqueued
   \<and> fst (enqueue 2 (job ''test-1'' NORMAL) two_enqueued) = 1
   \<and> map msgId (queue (snd (enqueue 2 (job ''test-1'' NORMAL) two_enqueued))) = [''test-1'']
   \<and> fst (enqueue 2 (job ''test-2'' NORMAL) (new_MessageQueue DEFAULT_CONFIG)) = 2
   \<and> queue (snd (enqueue 2 (job ''test-2'' NORMAL) (new_MessageQueue DEFAULT_CONFIG))) = []
   \<and> map (\<lambda>m. (msgId m, priority m)) (queue (snd (enqueue 2 (job ''low-1'' HIGH) two_enqueued)))
       = [(''b'', NORMAL), (''low-1'', LOW)]"
  by code_simp

subsection \<open>The gauges\<close>

text \<open>
  C3. \<open>length\<close> would be the number of waiting jobs and \<open>active\<close> the number in flight,
  never negative and never above \<open>maxConcurrent\<close>. In the code every tick with a
  non-empty wait list sets the counter back to 0 before it dispatches: with \<open>a\<close> still in
  flight, a tick that dispatches \<open>b\<close> leaves two in flight and \<open>active = 1\<close>, and when
  both have settled \<open>active = -1\<close>. After \<open>stats-1\<close> and \<open>stats-2\<close> one job is waiting and
  \<open>length = 2\<close>; after \<open>batch-0\<close> on a queue with \<open>maxConcurrent = 1\<close> one job is in flight
  and \<open>active = 2\<close>.
\<close>

theorem gauges_differ_from_counts:
  "length (inflight (tick 100 two_enqueued)) = 2
   \<and> active_getter (tick 100 two_enqueued) = 1
   \<and> inflight (run [Tick 100, Settle 0 True, Settle 0 True] two_enqueued) = []
   \<and> active_getter (run [Tick 100, Settle 0 True, Settle 0 True] two_enqueued) = - 1
   \<and> length (queue (run [Enqueue 0 (job ''stats-1'' NORMAL), Enqueue 1 (job ''stats-2'' NORMAL)]
        (new_MessageQueue DEFAULT_CONFIG))) = 1
   \<and> length_getter (run [Enqueue 0 (job ''stats-1'' NORMAL), Enqueue 1 (job ''stats-2'' NORMAL)]
        (new_MessageQueue DEFAULT_CONFIG)) = 2
   \<and> length (inflight (run [Enqueue 0 (job ''batch-0'' NORMAL)]
        (new_MessageQueue (DEFAULT_CONFIG\<lparr>maxConcurrent := 1\<rparr>)))) = 1
   \<and> active_getter (run [Enqueue 0 (job ''batch-0'' NORMAL)]
        (new_MessageQueue (DEFAULT_CONFIG\<lparr>maxConcurrent := 1\<rparr>))) = 2"
  by code_simp

subsection \<open>stop\<close>

lemma stop_fields:
  "isStopped (stop s) \<and> wasStopped (stop s) \<and> \<not> isProcessing (stop s) \<and> \<not> timer (stop s)
   \<and> retryTimers (stop s) = [] \<and> queue (stop s) = [] \<and> activeCount (stop s) = 0
   \<and> invoked (stop s) = invoked s \<and> processorReplaced (stop s)"
  by (simp add: stop_def)

lemma stopped_dispatch: "isStopped s \<Longrightarrow> foldl (dispatch now) s ms = s"
  by (induction ms) (simp_all add: dispatch_def)

lemma stopped_step:
  assumes "isStopped s" and "wasStopped s"
  shows "isStopped (step s op) \<and> wasStopped (step s op) \<and> invoked (step s op) = invoked s
    \<and> (queue s = [] \<longrightarrow> queue (step s op) = [])
    \<and> (\<not> timer s \<longrightarrow> \<not> timer (step s op))
    \<and> (retryTimers s = [] \<longrightarrow> retryTimers (step s op) = [])
    \<and> (\<not> isProcessing s \<longrightarrow> \<not> isProcessing (step s op))
    \<and> (processorReplaced s \<longrightarrow> processorReplaced (step s op))"
proof (cases op)
  case (Enqueue now message)
  then show ?thesis using assms by (simp add: enqueue_def)
next
  case Stop
  then show ?thesis by (simp add: stop_def)
next
  case (Tick now)
  then show ?thesis using assms by (simp add: tick_def processQueue_def)
next
  case (Settle i result)
  then show ?thesis using assms by (simp add: settle_def Let_def)
next
  case (RetryTimerFires i)
  then show ?thesis using assms by (simp add: retryTimerFires_def Let_def)
qed

lemma stopped_run:
  "isStopped s \<Longrightarrow> wasStopped s \<Longrightarrow> queue s = [] \<Longrightarrow> \<not> timer s \<Longrightarrow> retryTimers s = [] \<Longrightarrow>
   \<not> isProcessing s \<Longrightarrow> processorReplaced s \<Longrightarrow>
   isStopped (run ops s) \<and> wasStopped (run ops s) \<and> invoked (run ops s) = invoked s
   \<and> queue (run ops s) = [] \<and> \<not> timer (run ops s) \<and> retryTimers (run ops s) = []
   \<and> \<not> isProcessing (run ops s) \<and> processorReplaced (run ops s)"
proof (induction ops arbitrary: s)
  case Nil
  then show ?case by (simp add: run_def)
next
  case (Cons op ops)
  have st: "isStopped (step s op) \<and> wasStopped (step s op) \<and> invoked (step s op) = invoked s
    \<and> queue (step s op) = [] \<and> \<not> timer (step s op) \<and> retryTimers (step s op) = []
    \<and> \<not> isProcessing (step s op) \<and> processorReplaced (step s op)"
    using stopped_step [of s op] Cons.prems by simp
  then have "isStopped (run ops (step s op)) \<and> wasStopped (run ops (step s op))
    \<and> invoked (run ops (step s op)) = invoked (step s op)
    \<and> queue (run ops (step s op)) = [] \<and> \<not> timer (run ops (step s op))
    \<and> retryTimers (run ops (step s op)) = []
    \<and> \<not> isProcessing (run ops (step s op)) \<and> processorReplaced (run ops (step s op))"
    by (intro Cons.IH) simp_all
  moreover have "run (op # ops) s = run ops (step s op)" by (simp add: run_def)
  ultimately show ?case using st by simp
qed

section \<open>Properties of EmailService\<close>

subsection \<open>retryWithBackoff as processQueuedEmail calls it\<close>




lemma retry_part:
  "e \<in> set (map (retry_event_of i) tr) \<Longrightarrow> (\<exists>k. e = SendCalled i k) \<or> (\<exists>d. e = Slept d)"
proof -
  assume "e \<in> set (map (retry_event_of i) tr)"
  then obtain x where "e = retry_event_of i x" by auto
  then show ?thesis by (cases x) auto
qed

subsection \<open>Induction over the provider loop\<close>


lemma pair_of_retry_event_of [simp]: "(pair_of (retry_event_of i x) = Some j) = (j = i \<and> (\<exists>k. x = Invoke k))"
  by (cases x) auto

lemma retry_event_of_neq [simp]:
  "retry_event_of i x \<noteq> IsOpenCalled j b" "IsOpenCalled j b \<noteq> retry_event_of i x"
  "retry_event_of i x \<noteq> RecordSuccessCalled j" "RecordSuccessCalled j \<noteq> retry_event_of i x"
  "retry_event_of i x \<noteq> RecordFailureCalled j" "RecordFailureCalled j \<noteq> retry_event_of i x"
  "retry_event_of i x \<noteq> MarkSentCalled a c" "MarkSentCalled a c \<noteq> retry_event_of i x"
  by (cases x; simp)+



lemma count_list_retry_part [simp]:
  "count_list (map (retry_event_of i) tr) (RecordSuccessCalled j) = 0"
  "count_list (map (retry_event_of i) tr) (RecordFailureCalled j) = 0"
  by (induction tr) auto













subsection \<open>stop and shutdown\<close>

text \<open>Every step of the service is a step of its queue, or leaves the queue alone.\<close>

lemma svcQueue_tryProviders:
  "svcQueue (fst (snd (snd (tryProviders sends mid k now svc)))) = svcQueue svc"
proof (induction "length (providers svc) - k" arbitrary: k now svc)
  case 0
  then show ?case by (simp add: tryProviders.simps [of sends mid k now svc])
next
  case (Suc d)
  have rec: "\<And>now1 (svc1 :: EmailService). providers svc1 = providers svc \<Longrightarrow>
      svcQueue (fst (snd (snd (tryProviders sends mid (Suc k) now1 svc1)))) = svcQueue svc1"
  proof -
    fix now1 and svc1 :: EmailService assume a: "providers svc1 = providers svc"
    have "d = length (providers svc1) - Suc k" using Suc.hyps(2) a by simp
    then show "svcQueue (fst (snd (snd (tryProviders sends mid (Suc k) now1 svc1)))) = svcQueue svc1"
      by (rule Suc.hyps(1))
  qed
  have k: "k < length (providers svc)" using Suc.hyps(2) by simp
  show ?case
  proof (cases "k < length (breakers svc)")
    case False
    then show ?thesis using k by (simp add: tryProviders.simps [of sends mid k now svc])
  next
    case inb: True
    show ?thesis
    proof (cases "isOpen now (breakers svc ! k)")
      case True
      then show ?thesis
        using k inb rec [of svc now]
        by (auto simp: tryProviders.simps [of sends mid k now svc] split: prod.splits)
    next
      case False
      obtain res tr where rt: "retryWithBackoff (sends k) 3 100 = (res, tr)"
        by (cases "retryWithBackoff (sends k) 3 100")
      show ?thesis
      proof (cases res)
        case (Inr v)
        then show ?thesis
          using k inb False rt
          by (simp add: tryProviders.simps [of sends mid k now svc] Let_def)
      next
        case (Inl e)
        let ?t = "now + sum_list (waits tr)"
        let ?svc1 = "svc\<lparr>breakers := (breakers svc)[k := recordFailure ?t (breakers svc ! k)]\<rparr>"
        have "svcQueue (fst (snd (snd (tryProviders sends mid (Suc k) ?t ?svc1)))) = svcQueue ?svc1"
          by (intro rec) simp
        then show ?thesis
          using k inb False rt Inl
          by (auto simp: tryProviders.simps [of sends mid k now svc] Let_def split: prod.splits)
      qed
    qed
  qed
qed

lemma svcQueue_withQueue: "svcQueue (withQueue f svc) = f (svcQueue svc)"
  by (simp add: withQueue_def Let_def)

lemma run_append: "run (xs @ ys) s = run ys (run xs s)"
  by (simp add: run_def)

lemma svcQueue_service_step:
  "\<exists>qops. svcQueue (service_step svc op) = run qops (svcQueue svc)"
proof (cases op)
  case (SendEmail now mid to subj bdy prio)
  let ?m = "\<lparr>msgId = mid, msgTo = to, subject = subj, body = bdy, priority = prio\<rparr>"
  have "svcQueue (service_step svc op) = run [] (svcQueue svc)
      \<or> svcQueue (service_step svc op) = run [Enqueue now ?m] (svcQueue svc)"
    using SendEmail
    by (auto simp: sendEmail_def svcQueue_withQueue run_def split: prod.splits)
  then show ?thesis by blast
next
  case (TickFires now)
  then have "svcQueue (service_step svc op) = run [Tick now] (svcQueue svc)"
    by (simp add: svcQueue_withQueue run_def)
  then show ?thesis by blast
next
  case (DispatchCompletes i sends now)
  let ?mid = "msgId (fst (inflight (svcQueue svc) ! i))"
  have "svcQueue (service_step svc op) = svcQueue svc
      \<or> (\<exists>b. svcQueue (service_step svc op) = settle i b (svcQueue svc))"
    using DispatchCompletes svcQueue_tryProviders [of sends ?mid 0 now svc]
    by (auto simp: dispatchCompletes_def svcQueue_withQueue split: prod.splits)
  then have "svcQueue (service_step svc op) = run [] (svcQueue svc)
      \<or> (\<exists>b. svcQueue (service_step svc op) = run [Settle i b] (svcQueue svc))"
    by (simp add: run_def)
  then show ?thesis by blast
next
  case (RetryFires i)
  then have "svcQueue (service_step svc op) = run [RetryTimerFires i] (svcQueue svc)"
    by (simp add: svcQueue_withQueue run_def)
  then show ?thesis by blast
next
  case Shutdown
  then have "svcQueue (service_step svc op) = run [Stop] (svcQueue svc)"
    by (simp add: shutdown_def svcQueue_withQueue run_def)
  then show ?thesis by blast
qed

lemma svcQueue_service_run:
  "\<exists>qops. svcQueue (service_run ops svc) = run qops (svcQueue svc)"
proof (induction ops arbitrary: svc)
  case Nil
  have "svcQueue (service_run [] svc) = run [] (svcQueue svc)"
    by (simp add: service_run_def run_def)
  then show ?case by blast
next
  case (Cons op ops)
  obtain q1 where q1: "svcQueue (service_step svc op) = run q1 (svcQueue svc)"
    using svcQueue_service_step by blast
  obtain q2 where q2: "svcQueue (service_run ops (service_step svc op))
      = run q2 (svcQueue (service_step svc op))"
    using Cons.IH by blast
  have "svcQueue (service_run (op # ops) svc) = run (q1 @ q2) (svcQueue svc)"
    using q1 q2 by (simp add: service_run_def run_append)
  then show ?case by blast
qed

text \<open>
  C8. \<open>stop\<close> is terminal and idempotent. After it the queue is stopped, no tick timer
  and no retry timer is pending, the wait list is empty and the counter is 0; a second
  \<open>stop\<close> made directly after the first changes nothing. Jobs that were selected are not
  dispatched once the queue is stopped. Whatever happens afterwards (calls of \<open>enqueue\<close>
  or \<open>stop\<close>,
  promises of processor calls made earlier settling, timers), the processor given to the
  constructor is not called again, the wait list stays empty, no timer is set, and every
  \<open>enqueue\<close> returns 0 and changes nothing. In the service, after \<open>shutdown\<close> no dispatch
  is started, whatever happens. A dispatch already started is not cancelled (see below).
\<close>

theorem stop_is_terminal:
  "isStopped (stop s) \<and> \<not> isProcessing (stop s)
   \<and> \<not> timer (stop s) \<and> retryTimers (stop s) = [] \<and> queue (stop s) = []
   \<and> activeCount (stop s) = 0
   \<and> stop (stop s) = stop s
   \<and> foldl (dispatch now) (stop s) ms = stop s
   \<and> invoked (run ops (stop s)) = invoked s
   \<and> queue (run ops (stop s)) = []
   \<and> \<not> timer (run ops (stop s)) \<and> retryTimers (run ops (stop s)) = []
   \<and> enqueue now message (run ops (stop s)) = (0, run ops (stop s))
   \<and> invoked (svcQueue (service_run sops (shutdown svc))) = invoked (svcQueue svc)
   \<and> queue (svcQueue (service_run sops (shutdown svc))) = []"
proof -
  have f: "isStopped (stop s) \<and> wasStopped (stop s) \<and> \<not> isProcessing (stop s) \<and> \<not> timer (stop s)
   \<and> retryTimers (stop s) = [] \<and> queue (stop s) = [] \<and> activeCount (stop s) = 0
   \<and> invoked (stop s) = invoked s \<and> processorReplaced (stop s)" by (rule stop_fields)
  have r: "isStopped (run ops (stop s)) \<and> wasStopped (run ops (stop s))
    \<and> invoked (run ops (stop s)) = invoked (stop s)
    \<and> queue (run ops (stop s)) = [] \<and> \<not> timer (run ops (stop s))
    \<and> retryTimers (run ops (stop s)) = []
    \<and> \<not> isProcessing (run ops (stop s)) \<and> processorReplaced (run ops (stop s))"
    using f by (intro stopped_run) simp_all
  have i: "stop (stop s) = stop s" by (simp add: stop_def)
  have d: "foldl (dispatch now) (stop s) ms = stop s"
    using f by (intro stopped_dispatch) simp
  have e: "enqueue now message (run ops (stop s)) = (0, run ops (stop s))"
    using r by (simp add: enqueue_def)
  obtain qops where q: "svcQueue (service_run sops (shutdown svc))
      = run qops (svcQueue (shutdown svc))"
    using svcQueue_service_run by blast
  have sd: "svcQueue (shutdown svc) = stop (svcQueue svc)"
    by (simp add: shutdown_def svcQueue_withQueue)
  have "invoked (run qops (stop (svcQueue svc))) = invoked (stop (svcQueue svc))
      \<and> queue (run qops (stop (svcQueue svc))) = []"
    using stop_fields [of "svcQueue svc"] stopped_run [of "stop (svcQueue svc)" qops] by simp
  then have v: "invoked (svcQueue (service_run sops (shutdown svc))) = invoked (svcQueue svc)
      \<and> queue (svcQueue (service_run sops (shutdown svc))) = []"
    using q sd stop_fields [of "svcQueue svc"] by simp
  show ?thesis using f r i d e v by simp
qed

theorem stop_is_terminal_witness:
  "invoked (run [Enqueue 5 (job ''c'' HIGH), Tick 100, Settle 0 True, RetryTimerFires 0, Stop]
       (stop (run [Enqueue 0 (job ''a'' NORMAL), Enqueue 1 (job ''b'' NORMAL)]
          (new_MessageQueue DEFAULT_CONFIG))))
     = invoked (run [Enqueue 0 (job ''a'' NORMAL), Enqueue 1 (job ''b'' NORMAL)]
          (new_MessageQueue DEFAULT_CONFIG))
   \<and> fst (enqueue 7 (job ''d'' LOW) (stop (new_MessageQueue DEFAULT_CONFIG))) = 0"
  using stop_is_terminal [of "run [Enqueue 0 (job ''a'' NORMAL), Enqueue 1 (job ''b'' NORMAL)]
          (new_MessageQueue DEFAULT_CONFIG)" 0 "[]"
          "[Enqueue 5 (job ''c'' HIGH), Tick 100, Settle 0 True, RetryTimerFires 0, Stop]" "job ''d'' LOW"
          "[]" new_EmailService]
    stop_is_terminal [of "new_MessageQueue DEFAULT_CONFIG" 7 "[]" "[]" "job ''d'' LOW"
          "[]" new_EmailService]
  by (simp add: run_def)

text \<open>
  What \<open>stop\<close> does not reach: a processor call that is in flight. The timer tick hands
  \<open>B\<close> to the processor; \<open>shutdown\<close> stops the queue while that dispatch is waiting; the
  dispatch runs on, calls \<open>send\<close> on the second provider and records
  \<open>Sent via ProviderB\<close>, after the queue was stopped. So the backend can be called after
  \<open>stop\<close> has returned. And a second \<open>stop\<close> that is not made directly after the first
  can change something: on the queue with \<open>a\<close> in flight, \<open>stop\<close> sets \<open>active\<close> to 0,
  the settling of \<open>a\<close> takes it to -1, and a second \<open>stop\<close> then sets it to 0 again.
\<close>

theorem shutdown_leaves_dispatch_running:
  "map (\<lambda>p. (msgId (fst p), snd p)) (inflight (svcQueue svcAB)) = [(''A'', True), (''B'', True)]
   \<and> isStopped (svcQueue (shutdown svcAB))
   \<and> inflight (svcQueue (shutdown svcAB)) = inflight (svcQueue svcAB)
   \<and> status (store (shutdown svcAB)) ''B'' = Some ''Processing''
   \<and> SendCalled 1 0 \<in> set (snd (snd (snd (tryProviders firstFails ''B'' 0 150 (shutdown svcAB)))))
   \<and> status (store (service_run [Shutdown, DispatchCompletes 1 firstFails 150] svcAB)) ''B''
       = Some ''Sent via ProviderB''
   \<and> map failureCount (breakers (service_run [Shutdown, DispatchCompletes 1 firstFails 150] svcAB))
       = [1, 0]
   \<and> length (inflight (stop two_enqueued)) = 1
   \<and> active_getter (stop two_enqueued) = 0
   \<and> active_getter (run [Stop, Settle 0 True] two_enqueued) = - 1
   \<and> active_getter (run [Stop, Settle 0 True, Stop] two_enqueued) = 0"
  by code_simp

text \<open>
  A \<open>stop\<close> later than that: a processor call made before the first \<open>stop\<close> still takes
  one from the counter when it settles, and the later \<open>stop\<close> sets the counter to 0
  again; nothing else changes.
\<close>

lemma stop_again_later:
  "stop (run ops (stop s)) = (run ops (stop s))\<lparr>activeCount := 0\<rparr>"
proof -
  have r: "isStopped (run ops (stop s)) \<and> wasStopped (run ops (stop s))
    \<and> invoked (run ops (stop s)) = invoked (stop s)
    \<and> queue (run ops (stop s)) = [] \<and> \<not> timer (run ops (stop s))
    \<and> retryTimers (run ops (stop s)) = []
    \<and> \<not> isProcessing (run ops (stop s)) \<and> processorReplaced (run ops (stop s))"
    using stop_fields [of s] by (intro stopped_run) simp_all
  define s1 where "s1 = run ops (stop s)"
  have "stop s1 = s1\<lparr>activeCount := 0\<rparr>"
    using r unfolding s1_def [symmetric]
    by (intro MessageQueue.equality) (simp_all add: stop_def)
  then show ?thesis by (simp add: s1_def)
qed

subsection \<open>Ids already seen\<close>

lemma isDuplicate_markSent: "isDuplicate i (markSent j v st) = (i = j \<or> isDuplicate i st)"
  by (auto simp: isDuplicate_def markSent_def)

lemma isDuplicate_isRateLimited:
  "isDuplicate i (snd (isRateLimited now to st)) = isDuplicate i st"
  by (simp add: isDuplicate_def isRateLimited_def split: option.splits)

lemma isDuplicate_foldl_Processing:
  "isDuplicate i st \<Longrightarrow> isDuplicate i (foldl (\<lambda>st m. markSent (msgId m) ''Processing'' st) st ms)"
  by (induction ms arbitrary: st) (simp_all add: isDuplicate_markSent)

lemma isDuplicate_onQueueEvent: "isDuplicate i st \<Longrightarrow> isDuplicate i (onQueueEvent st e)"
  by (cases e) (simp_all add: onQueueEvent_def isDuplicate_markSent)

lemma isDuplicate_foldl_onQueueEvent:
  "isDuplicate i st \<Longrightarrow> isDuplicate i (foldl onQueueEvent st es)"
  by (induction es arbitrary: st) (simp_all add: isDuplicate_onQueueEvent)

lemma isDuplicate_withQueue:
  "isDuplicate i (store svc) \<Longrightarrow> isDuplicate i (store (withQueue f svc))"
  by (simp add: withQueue_def Let_def isDuplicate_foldl_onQueueEvent isDuplicate_foldl_Processing)

lemma isDuplicate_tryProviders:
  "isDuplicate i (store svc) \<Longrightarrow>
   isDuplicate i (store (fst (snd (snd (tryProviders sends mid k now svc)))))"
proof (induction "length (providers svc) - k" arbitrary: k now svc)
  case 0
  then show ?case
    by (simp add: tryProviders.simps [of sends mid k now svc] isDuplicate_markSent)
next
  case (Suc d)
  have rec: "\<And>now1 (svc1 :: EmailService). providers svc1 = providers svc \<Longrightarrow> isDuplicate i (store svc1) \<Longrightarrow>
      isDuplicate i (store (fst (snd (snd (tryProviders sends mid (Suc k) now1 svc1)))))"
  proof -
    fix now1 and svc1 :: EmailService assume a: "providers svc1 = providers svc" "isDuplicate i (store svc1)"
    have "d = length (providers svc1) - Suc k" using Suc.hyps(2) a by simp
    then show "isDuplicate i (store (fst (snd (snd (tryProviders sends mid (Suc k) now1 svc1)))))"
      using a by (intro Suc.hyps(1))
  qed
  have k: "k < length (providers svc)" using Suc.hyps(2) by simp
  show ?case
  proof (cases "k < length (breakers svc)")
    case False
    then show ?thesis
      using k Suc.prems by (simp add: tryProviders.simps [of sends mid k now svc])
  next
    case inb: True
    show ?thesis
    proof (cases "isOpen now (breakers svc ! k)")
      case True
      then show ?thesis
        using k inb rec [of svc now] Suc.prems
        by (auto simp: tryProviders.simps [of sends mid k now svc] split: prod.splits)
    next
      case False
      obtain res tr where rt: "retryWithBackoff (sends k) 3 100 = (res, tr)"
        by (cases "retryWithBackoff (sends k) 3 100")
      show ?thesis
      proof (cases res)
        case (Inr v)
        then show ?thesis
          using k inb False rt Suc.prems
          by (simp add: tryProviders.simps [of sends mid k now svc] Let_def isDuplicate_markSent)
      next
        case (Inl e)
        let ?t = "now + sum_list (waits tr)"
        let ?svc1 = "svc\<lparr>breakers := (breakers svc)[k := recordFailure ?t (breakers svc ! k)]\<rparr>"
        have "isDuplicate i (store (fst (snd (snd (tryProviders sends mid (Suc k) ?t ?svc1)))))"
          using Suc.prems by (intro rec) simp_all
        then show ?thesis
          using k inb False rt Inl
          by (auto simp: tryProviders.simps [of sends mid k now svc] Let_def split: prod.splits)
      qed
    qed
  qed
qed

lemma isDuplicate_sendEmail:
  "isDuplicate i (store svc) \<Longrightarrow> isDuplicate i (store (snd (sendEmail now mid to subj bdy prio svc)))"
  using isDuplicate_isRateLimited [of i now to "store svc"]
  by (auto simp: sendEmail_def isDuplicate_withQueue isDuplicate_markSent split: prod.splits)

lemma isDuplicate_dispatchCompletes:
  "isDuplicate i (store svc) \<Longrightarrow> isDuplicate i (store (dispatchCompletes k sends now svc))"
  using isDuplicate_tryProviders [of i svc sends "msgId (fst (inflight (svcQueue svc) ! k))" 0 now]
  by (auto simp: dispatchCompletes_def isDuplicate_withQueue split: prod.splits)

lemma isDuplicate_service_step:
  "isDuplicate i (store svc) \<Longrightarrow> isDuplicate i (store (service_step svc op))"
  by (cases op)
    (simp_all add: isDuplicate_sendEmail isDuplicate_withQueue isDuplicate_dispatchCompletes
      shutdown_def)

lemma isDuplicate_service_run:
  "isDuplicate i (store svc) \<Longrightarrow> isDuplicate i (store (service_run ops svc))"
proof (induction ops arbitrary: svc)
  case Nil
  then show ?case by (simp add: service_run_def)
next
  case (Cons op ops)
  have "isDuplicate i (store (service_run ops (service_step svc op)))"
    using Cons.prems by (intro Cons.IH isDuplicate_service_step)
  then show ?case by (simp add: service_run_def)
qed

lemma sendEmail_Queued_marks:
  "sendEmail now mid to subj bdy prio svc = (Queued, svc1) \<Longrightarrow> isDuplicate mid (store svc1)"
  by (auto simp: sendEmail_def isDuplicate_withQueue isDuplicate_markSent
      split: if_splits prod.splits)

text \<open>
  C9. Once \<open>sendEmail\<close> has answered \<open>Queued\<close> for an id, every later \<open>sendEmail\<close> with
  that id answers \<open>Duplicate\<close> and changes nothing, whatever happened in between
  (submissions, ticks, dispatches completing with any provider outcomes, retry timers,
  shutdown). An id that is a duplicate stays one; \<open>markSent\<close> with any status makes it one.
\<close>

theorem sendEmail_duplicate_forever:
  "(sendEmail now mid to subj bdy prio svc = (Queued, svc1) \<longrightarrow>
      sendEmail now2 mid to2 subj2 bdy2 prio2 (service_run ops svc1)
        = (Duplicate, service_run ops svc1))
   \<and> (isDuplicate i (store svc) \<longrightarrow> isDuplicate i (store (service_run ops svc)))
   \<and> (isDuplicate i (store svc) \<longrightarrow> sendEmail now i to subj bdy prio svc = (Duplicate, svc))
   \<and> isDuplicate i (markSent i v st)"
proof (intro conjI impI)
  assume "sendEmail now mid to subj bdy prio svc = (Queued, svc1)"
  then have "isDuplicate mid (store svc1)" by (rule sendEmail_Queued_marks)
  then have "isDuplicate mid (store (service_run ops svc1))" by (rule isDuplicate_service_run)
  then show "sendEmail now2 mid to2 subj2 bdy2 prio2 (service_run ops svc1)
        = (Duplicate, service_run ops svc1)"
    by (simp add: sendEmail_def)
next
  assume "isDuplicate i (store svc)"
  then show "isDuplicate i (store (service_run ops svc))" by (rule isDuplicate_service_run)
next
  assume "isDuplicate i (store svc)"
  then show "sendEmail now i to subj bdy prio svc = (Duplicate, svc)" by (simp add: sendEmail_def)
next
  show "isDuplicate i (markSent i v st)" by (simp add: isDuplicate_markSent)
qed

theorem sendEmail_duplicate_forever_witness:
  "sendEmail 0 ''A'' ''user@example.com'' ''Hello'' ''Text'' NORMAL new_EmailService
     = (Queued, svcA)
   \<and> status (store (service_run [DispatchCompletes 0 allFail 10] svcA)) ''A''
       = Some ''All providers failed''
   \<and> status (store (service_run failingRun svcA)) ''A'' = Some ''Failed in queue''
   \<and> sendEmail 9500 ''A'' ''other@example.com'' ''Again'' ''Text'' HIGH
         (service_run failingRun svcA)
       = (Duplicate, service_run failingRun svcA)"
proof -
  have "fst (sendEmail 0 ''A'' ''user@example.com'' ''Hello'' ''Text'' NORMAL new_EmailService)
      = Queued"
    by code_simp
  then have q: "sendEmail 0 ''A'' ''user@example.com'' ''Hello'' ''Text'' NORMAL new_EmailService
      = (Queued, svcA)"
    by (simp add: svcA_def prod_eq_iff)
  have s1: "status (store (service_run [DispatchCompletes 0 allFail 10] svcA)) ''A''
      = Some ''All providers failed''"
    by code_simp
  have s2: "status (store (service_run failingRun svcA)) ''A'' = Some ''Failed in queue''"
    by code_simp
  show ?thesis
    using sendEmail_duplicate_forever [of 0 "''A''" "''user@example.com''" "''Hello''" "''Text''"
        NORMAL new_EmailService svcA 9500 "''other@example.com''" "''Again''" "''Text''" HIGH
        failingRun] q s1 s2
    by simp
qed

end
